theory Spec2Isabelle
  imports Complex_Main "HOL-Library.List_Lexorder" "HOL-Library.Char_ord"
begin

section \<open>Python values and exceptions\<close>

text \<open>
  The program \<^verbatim>\<open>ocr_images.py\<close> is embedded function by function. Python's unbounded
  integers are \<open>int\<close>. A Python \<^verbatim>\<open>str\<close> is a \<open>string\<close> whose characters are read as the
  code points 0 to 255; code points above 255 are outside the model. A Python
  \<^verbatim>\<open>float\<close> is the rational number it denotes: infinities, NaN and the rounding of
  binary64 are outside the model (every operation the program applies to pixel-sized
  integers, a true division by 2 and one addition, is exact in binary64).
  An exception that the program does not catch is the \<open>Inl\<close> of a sum.
\<close>

datatype error = ValueError | IndexError | OSError | TesseractError

text \<open>A number as the engine binding reports it in a numeric column: an \<^verbatim>\<open>int\<close> or a \<^verbatim>\<open>float\<close>.\<close>

datatype num = IntV int | FloatV rat

text \<open>
  The values that end up in the report: strings, numbers, lists, and dictionaries in
  insertion order (the order in which \<^verbatim>\<open>json.dumps\<close> writes the keys).
\<close>

datatype pyval =
    PStr string
  | PInt int
  | PFloat rat
  | PList "pyval list"
  | PDict "(string \<times> pyval) list"

text \<open>Subscripting a dictionary value, \<^verbatim>\<open>d[k]\<close>, as a lookup.\<close>

fun dict_get :: "pyval \<Rightarrow> string \<Rightarrow> pyval option" where
  "dict_get (PDict kvs) k = map_of kvs k"
| "dict_get _ k = None"

fun dict_keys :: "pyval \<Rightarrow> string list" where
  "dict_keys (PDict kvs) = map fst kvs"
| "dict_keys _ = []"

text \<open>\<^verbatim>\<open>int(x)\<close> on a number: the identity on an int, truncation towards zero on a float.\<close>

fun py_int :: "num \<Rightarrow> int" where
  "py_int (IntV n) = n"
| "py_int (FloatV q) = (if 0 \<le> q then \<lfloor>q\<rfloor> else \<lceil>q\<rceil>)"

text \<open>\<^verbatim>\<open>float(x)\<close> on a number.\<close>

fun py_float :: "num \<Rightarrow> rat" where
  "py_float (IntV n) = of_int n"
| "py_float (FloatV q) = q"

text \<open>\<^verbatim>\<open>xs[i]\<close> for an index \<open>i \<ge> 0\<close>: out of range raises \<^verbatim>\<open>IndexError\<close>.\<close>

definition getitem :: "'a list \<Rightarrow> nat \<Rightarrow> error + 'a" where
  "getitem xs i = (if i < length xs then Inr (xs ! i) else Inl IndexError)"

section \<open>Python string operations\<close>

text \<open>\<^verbatim>\<open>str.isspace\<close> on one character, for the code points below 256.\<close>

definition isspace :: "char \<Rightarrow> bool" where
  "isspace c =
     (let n = (of_char c :: nat)
      in (9 \<le> n \<and> n \<le> 13) \<or> (28 \<le> n \<and> n \<le> 32) \<or> n = 133 \<or> n = 160)"

text \<open>\<^verbatim>\<open>s.strip()\<close>: leading and trailing whitespace removed.\<close>

definition strip :: "string \<Rightarrow> string" where
  "strip s = rev (dropWhile isspace (rev (dropWhile isspace s)))"

text \<open>
  The line boundaries of \<^verbatim>\<open>str.splitlines\<close> below 256: LF, VT, FF, CR, FS, GS, RS and
  NEL; CR LF counts as one boundary.
\<close>

definition is_linebreak :: "char \<Rightarrow> bool" where
  "is_linebreak c =
     (let n = (of_char c :: nat)
      in (10 \<le> n \<and> n \<le> 13) \<or> (28 \<le> n \<and> n \<le> 30) \<or> n = 133)"

fun splitlines_from :: "string \<Rightarrow> string \<Rightarrow> string list" where
  "splitlines_from cur [] = (if cur = [] then [] else [cur])"
| "splitlines_from cur [c] = (if is_linebreak c then [cur] else [cur @ [c]])"
| "splitlines_from cur (c # d # cs) =
     (if c = CHR 0x0D \<and> d = CHR 0x0A then cur # splitlines_from [] cs
      else if is_linebreak c then cur # splitlines_from [] (d # cs)
      else splitlines_from (cur @ [c]) (d # cs))"

definition splitlines :: "string \<Rightarrow> string list" where
  "splitlines s = splitlines_from [] s"

text \<open>\<^verbatim>\<open>sub in s\<close>: \<open>sub\<close> occurs in \<open>s\<close> as a contiguous substring.\<close>

fun contains :: "string \<Rightarrow> string \<Rightarrow> bool" where
  "contains sub [] = (sub = [])"
| "contains sub (c # cs) = (take (length sub) (c # cs) = sub \<or> contains sub cs)"

text \<open>\<^verbatim>\<open>s.split(sep)\<close> for a separator of one character: every occurrence splits.\<close>

fun split_on :: "char \<Rightarrow> string \<Rightarrow> string list" where
  "split_on sep [] = [[]]"
| "split_on sep (c # cs) =
     (if c = sep then [] # split_on sep cs
      else (case split_on sep cs of
              [] \<Rightarrow> [[c]]
            | p # ps \<Rightarrow> (c # p) # ps))"

text \<open>
  \<^verbatim>\<open>int(s)\<close> on a string, base 10: surrounding whitespace is ignored, then an optional
  sign, then decimal digits in which single underscores may separate digits. Anything
  else raises \<^verbatim>\<open>ValueError\<close>. The whitespace that \<^verbatim>\<open>int\<close> ignores is narrower than that
  of \<^verbatim>\<open>str.strip\<close>: below 256 it is the code points 9 to 13, 32, 133 and 160, without
  the separators 28 to 31. (The interpreter's configurable limit on the number of digits
  is not modelled.)
\<close>

definition is_int_space :: "char \<Rightarrow> bool" where
  "is_int_space c =
     (let n = (of_char c :: nat)
      in (9 \<le> n \<and> n \<le> 13) \<or> n = 32 \<or> n = 133 \<or> n = 160)"

definition int_strip :: "string \<Rightarrow> string" where
  "int_strip s = rev (dropWhile is_int_space (rev (dropWhile is_int_space s)))"

definition isdigit :: "char \<Rightarrow> bool" where
  "isdigit c = (48 \<le> (of_char c :: nat) \<and> (of_char c :: nat) \<le> 57)"

definition digit_value :: "char \<Rightarrow> int" where
  "digit_value c = int (of_char c) - 48"

fun digits_from :: "bool \<Rightarrow> int \<Rightarrow> string \<Rightarrow> error + int" where
  "digits_from prev acc [] = (if prev then Inr acc else Inl ValueError)"
| "digits_from prev acc (c # cs) =
     (if isdigit c then digits_from True (10 * acc + digit_value c) cs
      else if c = CHR ''_'' \<and> prev then digits_from False acc cs
      else Inl ValueError)"

definition int_of_str :: "string \<Rightarrow> error + int" where
  "int_of_str s =
     (case int_strip s of
        [] \<Rightarrow> Inl ValueError
      | c # cs \<Rightarrow>
          if c = CHR ''-'' then
            (case digits_from False 0 cs of Inl e \<Rightarrow> Inl e | Inr n \<Rightarrow> Inr (- n))
          else if c = CHR ''+'' then digits_from False 0 cs
          else digits_from False 0 (c # cs))"

section \<open>The OCR engine and the world the program runs in\<close>

text \<open>
  The table that \<^verbatim>\<open>pytesseract.image_to_data(..., output_type=Output.DICT)\<close> returns:
  a dictionary of columns. The six keys the program reads are the fields of a record, so
  the keys are taken to be present; the columns are lists of any lengths. The text
  column holds strings, the other columns numbers.
\<close>

record token_table =
  text_col :: "string list"
  left_col :: "num list"
  top_col :: "num list"
  width_col :: "num list"
  height_col :: "num list"
  conf_col :: "num list"

text \<open>A path is the list of its parts, as \<^verbatim>\<open>pathlib\<close> compares paths.\<close>

type_synonym path = "string list"

text \<open>
  Everything outside the program: the environment variable, the module-level
  \<^verbatim>\<open>pytesseract.pytesseract.tesseract_cmd\<close>, whether an executable resolves and answers
  a version query, which paths are directories, the entry names of a directory in the
  order the operating system lists them (\<open>None\<close> where listing raises: the path is no
  directory, or permission is refused), the image decoder, the two engine calls, the
  exception, if any, that writing a document to a path raises (a missing parent
  directory, a path that is a directory, a refused permission, a character that the
  encoding lacks), and the documents written so far.
\<close>

record 'img world =
  environ_TESSERACT_CMD :: "string option"
  tesseract_cmd :: string
  which :: "string \<Rightarrow> bool"
  version_found :: "string \<Rightarrow> bool"
  directory :: "path \<Rightarrow> bool"
  listing :: "path \<Rightarrow> string list option"
  image_open :: "path \<Rightarrow> error + 'img"
  image_to_osd :: "'img \<Rightarrow> error + string"
  image_to_data :: "'img \<Rightarrow> error + token_table"
  write_error :: "string \<Rightarrow> pyval \<Rightarrow> error option"
  files :: "string \<Rightarrow> pyval option"

section \<open>\<^verbatim>\<open>detect_orientation\<close>\<close>

text \<open>The \<^verbatim>\<open>for line in osd.splitlines()\<close> loop, with its \<^verbatim>\<open>return 0\<close> after the loop.\<close>

fun detect_lines :: "string list \<Rightarrow> error + int" where
  "detect_lines [] = Inr 0"
| "detect_lines (line # rest) =
     (if contains ''Rotate'' line then
        (case split_on CHR '':'' line of
           [_, v] \<Rightarrow> int_of_str (strip v)
         | _ \<Rightarrow> Inl ValueError)
      else detect_lines rest)"

definition detect_orientation :: "'img world \<Rightarrow> 'img \<Rightarrow> error + int" where
  "detect_orientation w img =
     (case image_to_osd w img of
        Inl e \<Rightarrow> Inl e
      | Inr osd \<Rightarrow> detect_lines (splitlines osd))"

section \<open>\<^verbatim>\<open>extract_words\<close>\<close>

text \<open>The dictionary literal appended for one token.\<close>

definition word_record :: "string \<Rightarrow> int \<Rightarrow> int \<Rightarrow> int \<Rightarrow> int \<Rightarrow> int \<Rightarrow> rat \<Rightarrow> pyval" where
  "word_record txt rotation left_v top_v width_v height_v confidence =
     PDict
      [(''text'', PStr txt),
       (''rotation'', PInt rotation),
       (''position'',
          PDict
           [(''left'', PInt left_v),
            (''top'', PInt top_v),
            (''right'', PInt (left_v + width_v)),
            (''bottom'', PInt (top_v + height_v)),
            (''center_x'', PFloat (of_int left_v + of_int width_v / 2)),
            (''center_y'', PFloat (of_int top_v + of_int height_v / 2))]),
       (''font_size'', PInt height_v),
       (''confidence'', PFloat confidence)]"

text \<open>
  The loop over \<^verbatim>\<open>range(len(data["text"]))\<close>: the indices still to visit and the list
  \<^verbatim>\<open>words\<close> built so far.
\<close>

fun extract_loop :: "token_table \<Rightarrow> int \<Rightarrow> nat list \<Rightarrow> pyval list \<Rightarrow> error + pyval list" where
  "extract_loop data rotation [] words = Inr words"
| "extract_loop data rotation (i # rest) words =
     (case getitem (text_col data) i of
        Inl e \<Rightarrow> Inl e
      | Inr raw \<Rightarrow>
          if strip raw = [] then extract_loop data rotation rest words
          else
            (case getitem (left_col data) i of Inl e \<Rightarrow> Inl e | Inr l \<Rightarrow>
            (case getitem (top_col data) i of Inl e \<Rightarrow> Inl e | Inr t \<Rightarrow>
            (case getitem (width_col data) i of Inl e \<Rightarrow> Inl e | Inr wd \<Rightarrow>
            (case getitem (height_col data) i of Inl e \<Rightarrow> Inl e | Inr h \<Rightarrow>
            (case getitem (conf_col data) i of Inl e \<Rightarrow> Inl e | Inr c \<Rightarrow>
               extract_loop data rotation rest
                 (words @ [word_record (strip raw) rotation
                             (py_int l) (py_int t) (py_int wd) (py_int h) (py_float c)])))))))"

definition extract_words :: "'img world \<Rightarrow> 'img \<Rightarrow> int \<Rightarrow> error + pyval list" where
  "extract_words w img rotation =
     (case image_to_data w img of
        Inl e \<Rightarrow> Inl e
      | Inr data \<Rightarrow> extract_loop data rotation [0..<length (text_col data)] [])"

section \<open>\<^verbatim>\<open>iter_images\<close>\<close>

definition SUPPORTED_EXTENSIONS :: "string set" where
  "SUPPORTED_EXTENSIONS = {''.png'', ''.jpg'', ''.jpeg'', ''.tif'', ''.tiff'', ''.bmp''}"

text \<open>\<^verbatim>\<open>s.rfind(c)\<close>: the last position of \<open>c\<close>, \<open>None\<close> for Python's \<open>-1\<close>.\<close>

fun rfind :: "char \<Rightarrow> string \<Rightarrow> nat option" where
  "rfind c [] = None"
| "rfind c (x # xs) =
     (case rfind c xs of
        Some i \<Rightarrow> Some (Suc i)
      | None \<Rightarrow> if x = c then Some 0 else None)"

text \<open>
  \<^verbatim>\<open>PurePath.suffix\<close>, as \<^verbatim>\<open>pathlib\<close> defines it up to CPython 3.13: with \<open>i\<close> the last
  dot of the final component, the suffix is \<^verbatim>\<open>name[i:]\<close> if \<^verbatim>\<open>0 < i < len(name) - 1\<close>
  and the empty string otherwise.
\<close>

definition path_name :: "path \<Rightarrow> string" where
  "path_name p = (if p = [] then [] else last p)"

definition suffix :: "path \<Rightarrow> string" where
  "suffix p =
     (let name = path_name p
      in case rfind CHR ''.'' name of
           None \<Rightarrow> []
         | Some i \<Rightarrow> if 0 < i \<and> i + 1 < length name then drop i name else [])"

text \<open>\<^verbatim>\<open>str.lower\<close> for the code points below 256.\<close>

definition lower_char :: "char \<Rightarrow> char" where
  "lower_char c =
     (let n = (of_char c :: nat)
      in if (65 \<le> n \<and> n \<le> 90) \<or> (192 \<le> n \<and> n \<le> 222 \<and> n \<noteq> 215)
         then char_of (n + 32) else c)"

definition lower :: "string \<Rightarrow> string" where
  "lower s = map lower_char s"

text \<open>
  \<^verbatim>\<open>Path.is_dir\<close> and \<^verbatim>\<open>Path.iterdir\<close>: the children of a directory are the folder's
  parts followed by the entry name; listing what cannot be listed raises.
\<close>

definition is_dir :: "'img world \<Rightarrow> path \<Rightarrow> bool" where
  "is_dir w p = directory w p"

definition iterdir :: "'img world \<Rightarrow> path \<Rightarrow> error + path list" where
  "iterdir w folder =
     (case listing w folder of
        None \<Rightarrow> Inl OSError
      | Some names \<Rightarrow> Inr (map (\<lambda>n. folder @ [n]) names))"

text \<open>
  \<^verbatim>\<open>sorted\<close> on paths compares the lists of parts, each part by code points (the
  ordering of \<^verbatim>\<open>PurePosixPath\<close>).
\<close>

definition iter_images :: "'img world \<Rightarrow> path \<Rightarrow> error + path list" where
  "iter_images w folder =
     (case iterdir w folder of
        Inl e \<Rightarrow> Inl e
      | Inr entries \<Rightarrow>
          Inr (sort (filter (\<lambda>p. lower (suffix p) \<in> SUPPORTED_EXTENSIONS) entries)))"

section \<open>\<^verbatim>\<open>configure_tesseract\<close>\<close>

text \<open>\<^verbatim>\<open>a or b\<close> on optional strings: \<^verbatim>\<open>None\<close> and the empty string are false.\<close>

definition py_or :: "string option \<Rightarrow> string option \<Rightarrow> string option" where
  "py_or a b = (case a of None \<Rightarrow> b | Some s \<Rightarrow> if s = [] then b else Some s)"

definition msg_not_found :: string where
  "msg_not_found =
     ''Tesseract executable not found. Install tesseract or provide the path via '' @
     ''--tesseract-cmd or the TESSERACT_CMD environment variable.''"

definition msg_not_available :: string where
  "msg_not_available =
     ''Tesseract is not available. Install it or provide the path via '' @
     ''--tesseract-cmd or the TESSERACT_CMD environment variable.''"

text \<open>
  The result is \<open>Inl\<close> of the message of the \<^verbatim>\<open>SystemExit\<close> raised, or the world with the
  module-level command set.
\<close>

definition configure_tesseract :: "'img world \<Rightarrow> string option \<Rightarrow> string + 'img world" where
  "configure_tesseract w cmd_arg =
     (let resolved_cmd = py_or cmd_arg (environ_TESSERACT_CMD w);
          w1 = (case resolved_cmd of
                  None \<Rightarrow> w
                | Some s \<Rightarrow> if s = [] then w else w\<lparr>tesseract_cmd := s\<rparr>)
      in if \<not> which w1 (tesseract_cmd w1) then Inl msg_not_found
         else if \<not> version_found w1 (tesseract_cmd w1) then Inl msg_not_available
         else Inr w1)"

section \<open>\<^verbatim>\<open>main\<close>\<close>

text \<open>The parsed command line: \<^verbatim>\<open>--img-dir\<close>, \<^verbatim>\<open>--output\<close> and \<^verbatim>\<open>--tesseract-cmd\<close>.\<close>

record args =
  img_dir :: path
  output_path :: string
  tesseract_cmd_arg :: "string option"

text \<open>
  \<^verbatim>\<open>str(path)\<close> on a POSIX path: the anchor, which is \<^verbatim>\<open>/\<close> or \<^verbatim>\<open>//\<close> when the path has
  one, followed by the other parts joined by \<^verbatim>\<open>/\<close>; the path without parts is \<^verbatim>\<open>.\<close>
\<close>

fun join_parts :: "string list \<Rightarrow> string" where
  "join_parts [] = []"
| "join_parts [p] = p"
| "join_parts (p # q # ps) = p @ ''/'' @ join_parts (q # ps)"

definition str_path :: "path \<Rightarrow> string" where
  "str_path p =
     (case p of
        [] \<Rightarrow> ''.''
      | a # ps \<Rightarrow> if a = ''/'' \<or> a = ''//'' then a @ join_parts ps else join_parts p)"

text \<open>
  How a run ends: normally, with the line printed; by \<^verbatim>\<open>SystemExit(message)\<close>, which
  prints the message and exits with status 1; or by an exception nobody catches, which
  also exits with status 1.
\<close>

datatype outcome = Completed string | SystemExit string | Uncaught error

fun exit_status :: "outcome \<Rightarrow> nat" where
  "exit_status (Completed line) = 0"
| "exit_status (SystemExit msg) = 1"
| "exit_status (Uncaught e) = 1"

text \<open>The \<^verbatim>\<open>for image_path in iter_images(img_dir)\<close> loop, appending to \<^verbatim>\<open>result["images"]\<close>.\<close>

fun process_images :: "'img world \<Rightarrow> path list \<Rightarrow> pyval list \<Rightarrow> error + pyval list" where
  "process_images w [] images = Inr images"
| "process_images w (image_path # rest) images =
     (case image_open w image_path of Inl e \<Rightarrow> Inl e | Inr img \<Rightarrow>
     (case detect_orientation w img of Inl e \<Rightarrow> Inl e | Inr rotation \<Rightarrow>
     (case extract_words w img rotation of Inl e \<Rightarrow> Inl e | Inr words \<Rightarrow>
        process_images w rest
          (images @ [PDict [(''file'', PStr (str_path image_path)),
                            (''rotation'', PInt rotation),
                            (''words'', PList words)]]))))"

text \<open>
  \<^verbatim>\<open>output_path.write_text(json.dumps(...))\<close>: the document that \<^verbatim>\<open>json.dumps\<close>
  serialises is stored under the path, unless writing raises. What a failed write leaves
  under the path (nothing new if the file could not be opened, a truncated file
  otherwise) is not modelled: the files are returned as they were.
\<close>

definition write_text :: "'img world \<Rightarrow> string \<Rightarrow> pyval \<Rightarrow> error + (string \<Rightarrow> pyval option)" where
  "write_text w p doc =
     (case write_error w p doc of
        Some e \<Rightarrow> Inl e
      | None \<Rightarrow> Inr ((files w)(p \<mapsto> doc)))"

text \<open>A run of the program: how it ends, and the files afterwards.\<close>

definition main :: "args \<Rightarrow> 'img world \<Rightarrow> outcome \<times> (string \<Rightarrow> pyval option)" where
  "main a w =
     (case configure_tesseract w (tesseract_cmd_arg a) of
        Inl msg \<Rightarrow> (SystemExit msg, files w)
      | Inr w1 \<Rightarrow>
          if \<not> is_dir w1 (img_dir a) then
            (SystemExit (''Image directory not found: '' @ str_path (img_dir a)), files w1)
          else
            (case iter_images w1 (img_dir a) of
               Inl e \<Rightarrow> (Uncaught e, files w1)
             | Inr paths \<Rightarrow>
                 (case process_images w1 paths [] of
                    Inl e \<Rightarrow> (Uncaught e, files w1)
                  | Inr images \<Rightarrow>
                      (case write_text w1 (output_path a)
                              (PDict [(''images'', PList images)]) of
                         Inl e \<Rightarrow> (Uncaught e, files w1)
                       | Inr written \<Rightarrow>
                           (Completed (''Wrote OCR results to '' @ output_path a),
                            written)))))"

section \<open>Notions used in the statements\<close>

text \<open>
  Index \<open>i\<close> of the table lies inside each of the five numeric columns; the token at
  index \<open>i\<close> has non-blank text; the dictionary that one pass of the loop appends for
  index \<open>i\<close>.
\<close>

definition covered :: "token_table \<Rightarrow> nat \<Rightarrow> bool" where
  "covered data i =
     (i < length (left_col data) \<and> i < length (top_col data) \<and> i < length (width_col data)
      \<and> i < length (height_col data) \<and> i < length (conf_col data))"

definition token_word :: "token_table \<Rightarrow> int \<Rightarrow> nat \<Rightarrow> pyval" where
  "token_word data rotation i =
     word_record (strip (text_col data ! i)) rotation
       (py_int (left_col data ! i)) (py_int (top_col data ! i))
       (py_int (width_col data ! i)) (py_int (height_col data ! i))
       (py_float (conf_col data ! i))"

definition nonblank_at :: "token_table \<Rightarrow> nat \<Rightarrow> bool" where
  "nonblank_at data i = (strip (text_col data ! i) \<noteq> [])"

text \<open>One pass of the loop of \<^verbatim>\<open>main\<close>: the entry appended for one image path.\<close>

definition image_entry :: "'img world \<Rightarrow> path \<Rightarrow> error + pyval" where
  "image_entry w image_path =
     (case image_open w image_path of Inl e \<Rightarrow> Inl e | Inr img \<Rightarrow>
     (case detect_orientation w img of Inl e \<Rightarrow> Inl e | Inr rotation \<Rightarrow>
     (case extract_words w img rotation of Inl e \<Rightarrow> Inl e | Inr words \<Rightarrow>
        Inr (PDict [(''file'', PStr (str_path image_path)),
                    (''rotation'', PInt rotation),
                    (''words'', PList words)]))))"

section \<open>The orientation rule in the words of the specification\<close>

text \<open>
  The specification describes orientation detection as: take the first line containing
  the marker \<^verbatim>\<open>Rotate\<close>, split it on the first colon, and parse the remainder, stripped
  of whitespace, as an integer; without such a line the orientation is 0. The definition
  below follows these words, to be compared with \<open>detect_lines\<close>, which follows the code.
  Where the words name no result (no colon on the line, a remainder that is no integer)
  it raises \<^verbatim>\<open>ValueError\<close>.
\<close>

fun split_first :: "char \<Rightarrow> string \<Rightarrow> (string \<times> string) option" where
  "split_first sep [] = None"
| "split_first sep (c # cs) =
     (if c = sep then Some ([], cs)
      else (case split_first sep cs of
              None \<Rightarrow> None
            | Some (before, remainder) \<Rightarrow> Some (c # before, remainder)))"

definition spec_detect_orientation :: "string \<Rightarrow> error + int" where
  "spec_detect_orientation osd =
     (case find (contains ''Rotate'') (splitlines osd) of
        None \<Rightarrow> Inr 0
      | Some line \<Rightarrow>
          (case split_first CHR '':'' line of
             None \<Rightarrow> Inl ValueError
           | Some (before, remainder) \<Rightarrow> int_of_str (strip remainder)))"

section \<open>Example inputs\<close>

text \<open>
  A world with the engine installed, a directory \<^verbatim>\<open>img\<close> holding two images and a text
  file, a directory \<^verbatim>\<open>mixed\<close> holding a subdirectory named like an image, a
  directory \<^verbatim>\<open>empty\<close> without any image, and a directory \<^verbatim>\<open>skew\<close> with one image.
  There is no directory \<^verbatim>\<open>nodir\<close>, so writing to \<^verbatim>\<open>nodir/out.json\<close> raises.
  Images are numbered: image 0 is a page with two words, image 1 a blank page, image 2 a
  page whose table has a short column, image 3 a page for which the engine reports a
  rotation of 45 degrees.
\<close>

definition page_table :: token_table where
  "page_table =
     \<lparr>text_col = [''  Hello '', '' '', ''Welt''],
      left_col = [IntV 10, IntV 5, FloatV (61 / 2)],
      top_col = [IntV 10, IntV 5, IntV 12],
      width_col = [IntV 50, IntV 1, IntV 41],
      height_col = [IntV 20, IntV 1, IntV 19],
      conf_col = [FloatV 95, IntV (- 1), FloatV (- 5 / 2)]\<rparr>"

definition blank_table :: token_table where
  "blank_table =
     \<lparr>text_col = [[], ''  ''],
      left_col = [IntV 0, IntV 3],
      top_col = [IntV 0, IntV 4],
      width_col = [IntV 640, IntV 2],
      height_col = [IntV 480, IntV 2],
      conf_col = [IntV (- 1), IntV (- 1)]\<rparr>"

definition short_table :: token_table where
  "short_table =
     \<lparr>text_col = [[], ''Wort''],
      left_col = [IntV 0],
      top_col = [IntV 0, IntV 4],
      width_col = [IntV 640, IntV 2],
      height_col = [IntV 480, IntV 2],
      conf_col = [IntV (- 1), IntV 90]\<rparr>"

definition page_osd :: string where
  "page_osd =
     ''Page number: 0'' @ [CHR 0x0A] @
     ''Orientation in degrees: 270'' @ [CHR 0x0A] @
     ''Rotate: 90'' @ [CHR 0x0A] @
     ''Orientation confidence: 2.51'' @ [CHR 0x0A] @
     ''Rotate: 180'' @ [CHR 0x0A]"

definition demo_world :: "nat world" where
  "demo_world =
     \<lparr>environ_TESSERACT_CMD = None,
      tesseract_cmd = ''tesseract'',
      which = (\<lambda>c. c = ''tesseract''),
      version_found = (\<lambda>c. True),
      directory = (\<lambda>p.
        p = [''img''] \<or> p = [''mixed''] \<or> p = [''mixed'', ''old.png'']
        \<or> p = [''empty''] \<or> p = [''skew'']),
      listing = (\<lambda>p.
        if p = [''img''] then Some [''page.png'', ''notes.txt'', ''blank.PNG'']
        else if p = [''mixed''] then Some [''b.jpg'', ''a.PNG'', ''c.txt'', ''d.tiff'', ''old.png'']
        else if p = [''mixed'', ''old.png''] then Some [''x.bmp'']
        else if p = [''empty''] then Some [''readme.md'']
        else if p = [''skew''] then Some [''s.png'']
        else None),
      image_open = (\<lambda>p.
        if p = [''img'', ''page.png''] then Inr 0
        else if p = [''img'', ''blank.PNG''] then Inr 1
        else if p = [''skew'', ''s.png''] then Inr 3
        else Inl OSError),
      image_to_osd = (\<lambda>i.
        if i = 0 then Inr page_osd
        else if i = 1 then Inr (''Page number: 0'' @ [CHR 0x0A])
        else if i = 2 then Inr (''Rotate: 0'' @ [CHR 0x0A])
        else if i = 3 then Inr (''Rotate: 45'' @ [CHR 0x0A])
        else Inl TesseractError),
      image_to_data = (\<lambda>i.
        if i = 0 then Inr page_table
        else if i = 1 then Inr blank_table
        else if i = 2 then Inr short_table
        else if i = 3 then Inr page_table
        else Inl TesseractError),
      write_error = (\<lambda>p doc. if p = ''nodir/out.json'' then Some OSError else None),
      files = (\<lambda>p. None)\<rparr>"

definition page_words :: "int \<Rightarrow> pyval list" where
  "page_words rotation =
     [word_record ''Hello'' rotation 10 10 50 20 95,
      word_record ''Welt'' rotation 30 12 41 19 (- 5 / 2)]"

text \<open>
  The command line with an image directory and the defaults; a command line whose output
  path lies in the missing directory; a world without the engine.
\<close>

definition demo_args :: "string \<Rightarrow> args" where
  "demo_args d = \<lparr>img_dir = [d], output_path = ''ocr_output.json'', tesseract_cmd_arg = None\<rparr>"



section \<open>Lists and strings\<close>

lemma filter_upt_take:
  "i \<le> length xs \<Longrightarrow>
   map (\<lambda>j. xs ! j) (filter (\<lambda>j. P (xs ! j)) [0..<i]) = filter P (take i xs)"
proof -
  assume "i \<le> length xs"
  then have "take i (map (\<lambda>j. xs ! j) [0..<length xs]) = map (\<lambda>j. xs ! j) [0..<i]"
    by (simp add: take_map)
  then have "take i xs = map (\<lambda>j. xs ! j) [0..<i]"
    by (simp add: map_nth)
  then show ?thesis by (simp add: filter_map comp_def)
qed

lemma nth_map_filter_upt:
  assumes "i < n" and "P i"
  shows "map f (filter P [0..<n]) ! length (filter P [0..<i]) = f i"
    and "length (filter P [0..<i]) < length (filter P [0..<n])"
proof -
  from assms(1) have "[0..<i + (n - i)] = [0..<i] @ [i..<i + (n - i)]"
    by (intro upt_add_eq_append) simp
  with assms(1) have "[0..<n] = [0..<i] @ i # [Suc i..<n]"
    by (simp add: upt_conv_Cons)
  then have split: "filter P [0..<n] = filter P [0..<i] @ i # filter P [Suc i..<n]"
    using assms(2) by (metis filter.simps(2) filter_append)
  show "map f (filter P [0..<n]) ! length (filter P [0..<i]) = f i"
    by (simp add: split nth_append)
  show "length (filter P [0..<i]) < length (filter P [0..<n])"
    by (simp add: split)
qed

lemma length_filter_eq_iff:
  "length (filter P xs) = length xs \<longleftrightarrow> (\<forall>x\<in>set xs. P x)"
proof (induction xs)
  case Nil
  show ?case by simp
next
  case (Cons x xs)
  have "length (filter P xs) \<noteq> Suc (length xs)"
    by (metis length_filter_le Suc_n_not_le_n)
  with Cons show ?case by auto
qed

lemma last_dropWhile_ne:
  "dropWhile P xs \<noteq> [] \<Longrightarrow> last (dropWhile P xs) = last xs"
  by (induction xs) (auto split: if_splits)

lemma strip_nonspace_ends:
  "strip s \<noteq> [] \<Longrightarrow> \<not> isspace (hd (strip s)) \<and> \<not> isspace (last (strip s))"
proof -
  assume ne: "strip s \<noteq> []"
  let ?u = "dropWhile isspace s"
  let ?v = "dropWhile isspace (rev ?u)"
  from ne have v: "?v \<noteq> []" by (simp add: strip_def)
  have u: "?u \<noteq> []"
  proof
    assume a: "?u = []"
    have "?v = []" unfolding a by simp
    with v show False by contradiction
  qed
  have hv: "\<not> isspace (hd ?v)" using v by (rule hd_dropWhile)
  have hu: "\<not> isspace (hd ?u)" using u by (rule hd_dropWhile)
  have "last (strip s) = hd ?v" using v by (simp add: strip_def last_rev)
  moreover have "hd (strip s) = hd ?u"
  proof -
    have "hd (rev ?v) = last ?v" using v by (simp add: hd_rev)
    also have "last ?v = last (rev ?u)" using v by (rule last_dropWhile_ne)
    also have "\<dots> = hd ?u" using u by (simp add: last_rev)
    finally show ?thesis by (simp add: strip_def)
  qed
  ultimately show ?thesis using hv hu by simp
qed

lemma strip_idem: "strip (strip s) = strip s"
proof (cases "strip s = []")
  case True
  then have "strip (strip s) = strip []" by simp
  also have "strip [] = []" by (simp add: strip_def)
  finally show ?thesis using True by simp
next
  case False
  then have e: "\<not> isspace (hd (strip s))" "\<not> isspace (last (strip s))"
    using strip_nonspace_ends by blast+
  from False e(1) have a: "dropWhile isspace (strip s) = strip s"
    by (cases "strip s") simp_all
  from False e(2) have b: "dropWhile isspace (rev (strip s)) = rev (strip s)"
    by (cases "rev (strip s)") (simp_all add: hd_rev [symmetric])
  show ?thesis
    unfolding strip_def [of "strip s"] a b by simp
qed

lemma split_on_not_Nil: "split_on sep s \<noteq> []"
  by (induction s) (auto split: list.splits)

lemma split_on_no_sep: "sep \<notin> set s \<Longrightarrow> split_on sep s = [s]"
  by (induction s) auto

lemma split_on_two_or_more: "sep \<in> set s \<Longrightarrow> \<exists>a b rest. split_on sep s = a # b # rest"
proof (induction s)
  case Nil
  then show ?case by simp
next
  case (Cons c cs)
  show ?case
  proof (cases "c = sep")
    case True
    obtain b rest where "split_on sep cs = b # rest"
      using split_on_not_Nil [of sep cs] by (cases "split_on sep cs") auto
    with True show ?thesis by simp
  next
    case False
    with Cons.prems have "sep \<in> set cs" by simp
    then obtain a b rest where "split_on sep cs = a # b # rest"
      using Cons.IH by blast
    with False show ?thesis by simp
  qed
qed

lemma split_first_None: "split_first sep s = None \<longleftrightarrow> sep \<notin> set s"
  by (induction s) (auto split: option.splits)

lemma split_first_Some:
  "split_first sep s = Some (a, b) \<Longrightarrow> split_on sep s = a # split_on sep b"
proof (induction s arbitrary: a)
  case Nil
  then show ?case by simp
next
  case (Cons c cs)
  show ?case
  proof (cases "c = sep")
    case True
    with Cons.prems show ?thesis by simp
  next
    case False
    with Cons.prems obtain a' where s: "split_first sep cs = Some (a', b)" and a: "a = c # a'"
      by (auto split: option.splits)
    from Cons.IH [OF s] a False show ?thesis by simp
  qed
qed

lemma in_set_dropWhile: "x \<in> set xs \<Longrightarrow> \<not> P x \<Longrightarrow> x \<in> set (dropWhile P xs)"
  by (induction xs) auto

lemma strip_keeps: "c \<in> set s \<Longrightarrow> \<not> isspace c \<Longrightarrow> c \<in> set (strip s)"
  by (simp add: strip_def in_set_dropWhile)

lemma int_strip_keeps: "c \<in> set s \<Longrightarrow> \<not> is_int_space c \<Longrightarrow> c \<in> set (int_strip s)"
  by (simp add: int_strip_def in_set_dropWhile)

lemma digits_from_foreign:
  "c \<in> set s \<Longrightarrow> \<not> isdigit c \<Longrightarrow> c \<noteq> CHR ''_'' \<Longrightarrow> digits_from prev acc s = Inl ValueError"
  by (induction s arbitrary: prev acc) auto

lemma int_of_str_foreign:
  assumes "c \<in> set s" and "\<not> is_int_space c" and "\<not> isdigit c"
    and "c \<noteq> CHR ''_''" and "c \<noteq> CHR ''-''" and "c \<noteq> CHR ''+''"
  shows "int_of_str s = Inl ValueError"
proof -
  from assms(1,2) have m: "c \<in> set (int_strip s)" by (rule int_strip_keeps)
  then obtain x xs where s: "int_strip s = x # xs" by (cases "int_strip s") auto
  have all: "digits_from False 0 (x # xs) = Inl ValueError"
    using m assms(3,4) unfolding s by (rule digits_from_foreign)
  show ?thesis
  proof (cases "x = CHR ''-'' \<or> x = CHR ''+''")
    case True
    with m s assms(5,6) have "c \<in> set xs" by auto
    then have "digits_from False 0 xs = Inl ValueError"
      using assms(3,4) by (rule digits_from_foreign)
    with True s show ?thesis by (auto simp add: int_of_str_def)
  next
    case False
    with s all show ?thesis by (simp add: int_of_str_def)
  qed
qed

lemma colon_plain:
  "\<not> isspace CHR '':''" "\<not> is_int_space CHR '':''" "\<not> isdigit CHR '':''"
  by (simp_all add: isspace_def is_int_space_def isdigit_def)

lemma find_first_match:
  "\<forall>p\<in>set pre. \<not> P p \<Longrightarrow> P x \<Longrightarrow> find P (pre @ x # post) = Some x"
  by (induction pre) auto

lemma find_no_match: "\<forall>p\<in>set xs. \<not> P p \<Longrightarrow> find P xs = None"
  by (induction xs) auto





section \<open>The loop of \<^verbatim>\<open>extract_words\<close>\<close>

lemma extract_loop_ok:
  "\<forall>i\<in>set ixs. i < length (text_col data) \<Longrightarrow>
   \<forall>i\<in>set ixs. nonblank_at data i \<longrightarrow> covered data i \<Longrightarrow>
   extract_loop data rotation ixs acc =
     Inr (acc @ map (token_word data rotation) (filter (nonblank_at data) ixs))"
  by (induction ixs arbitrary: acc)
     (simp_all add: getitem_def nonblank_at_def covered_def token_word_def)

lemma extract_loop_fail:
  "\<forall>i\<in>set ixs. i < length (text_col data) \<Longrightarrow>
   \<exists>i\<in>set ixs. nonblank_at data i \<and> \<not> covered data i \<Longrightarrow>
   extract_loop data rotation ixs acc = Inl IndexError"
  by (induction ixs arbitrary: acc)
     (auto simp add: getitem_def nonblank_at_def covered_def split: sum.splits)

lemma extract_loop_cases:
  assumes "\<forall>i\<in>set ixs. i < length (text_col data)"
  shows "(extract_loop data rotation ixs acc = Inl IndexError
            \<and> (\<exists>i\<in>set ixs. nonblank_at data i \<and> \<not> covered data i))
       \<or> (extract_loop data rotation ixs acc =
             Inr (acc @ map (token_word data rotation) (filter (nonblank_at data) ixs))
            \<and> (\<forall>i\<in>set ixs. nonblank_at data i \<longrightarrow> covered data i))"
proof (cases "\<exists>i\<in>set ixs. nonblank_at data i \<and> \<not> covered data i")
  case True
  with assms show ?thesis by (simp add: extract_loop_fail)
next
  case False
  then have "\<forall>i\<in>set ixs. nonblank_at data i \<longrightarrow> covered data i" by blast
  with assms show ?thesis by (simp add: extract_loop_ok)
qed

lemma extract_words_cases:
  assumes "image_to_data w img = Inr data"
  shows "(extract_words w img rotation = Inl IndexError
            \<and> (\<exists>i<length (text_col data). nonblank_at data i \<and> \<not> covered data i))
       \<or> (extract_words w img rotation =
             Inr (map (token_word data rotation)
                    (filter (nonblank_at data) [0..<length (text_col data)]))
            \<and> (\<forall>i<length (text_col data). nonblank_at data i \<longrightarrow> covered data i))"
  using extract_loop_cases [of "[0..<length (text_col data)]" data rotation "[]"] assms
  by (auto simp add: extract_words_def)

lemma extract_words_result:
  assumes "image_to_data w img = Inr data" and "extract_words w img rotation = Inr ws"
  shows "ws = map (token_word data rotation)
                (filter (nonblank_at data) [0..<length (text_col data)])"
    and "\<forall>i<length (text_col data). nonblank_at data i \<longrightarrow> covered data i"
  using extract_words_cases [OF assms(1), of rotation] assms(2) by auto

lemma extract_words_nth:
  assumes "image_to_data w img = Inr data" and "extract_words w img rotation = Inr ws"
    and "i < length (text_col data)" and "strip (text_col data ! i) \<noteq> []"
    and "k = length (filter (\<lambda>t. strip t \<noteq> []) (take i (text_col data)))"
  shows "k < length ws" and "ws ! k = token_word data rotation i" and "covered data i"
proof -
  let ?n = "length (text_col data)"
  have nb: "nonblank_at data i" using assms(4) by (simp add: nonblank_at_def)
  have "length (map (\<lambda>j. text_col data ! j) (filter (nonblank_at data) [0..<i])) = k"
    unfolding assms(5) nonblank_at_def
    using filter_upt_take [of i "text_col data" "\<lambda>t. strip t \<noteq> []"] assms(3) by simp
  then have k: "k = length (filter (nonblank_at data) [0..<i])" by simp
  have ws: "ws = map (token_word data rotation) (filter (nonblank_at data) [0..<?n])"
    using assms(1,2) by (rule extract_words_result)
  show "k < length ws"
    unfolding ws k using nth_map_filter_upt(2) [of i ?n "nonblank_at data", OF assms(3) nb] by simp
  show "ws ! k = token_word data rotation i"
    unfolding ws k by (rule nth_map_filter_upt(1) [of i ?n "nonblank_at data", OF assms(3) nb])
  show "covered data i"
    using extract_words_result(2) [OF assms(1,2)] assms(3) nb by blast
qed

lemma page_data: "image_to_data demo_world 0 = Inr page_table"
  by (simp add: demo_world_def)

lemma page_extract: "extract_words demo_world 0 90 = Inr (page_words 90)"
  by code_simp

lemma token_word_text:
  "dict_get (token_word data rotation i) ''text'' = Some (PStr (strip (text_col data ! i)))"
  by (simp add: token_word_def word_record_def)

lemma extract_words_texts:
  assumes "image_to_data w img = Inr data" and "extract_words w img rotation = Inr ws"
  shows "map (\<lambda>r. dict_get r ''text'') ws =
         map (\<lambda>t. Some (PStr (strip t))) (filter (\<lambda>t. strip t \<noteq> []) (text_col data))"
proof -
  let ?n = "length (text_col data)"
  have ws: "ws = map (token_word data rotation) (filter (nonblank_at data) [0..<?n])"
    using assms by (rule extract_words_result)
  have nb: "nonblank_at data = (\<lambda>j. strip (text_col data ! j) \<noteq> [])"
    by (rule ext) (simp add: nonblank_at_def)
  have "map (\<lambda>r. dict_get r ''text'') ws =
        map (\<lambda>t. Some (PStr (strip t)))
          (map (\<lambda>j. text_col data ! j) (filter (\<lambda>j. strip (text_col data ! j) \<noteq> []) [0..<?n]))"
    unfolding ws nb by (simp add: token_word_text comp_def)
  also have "map (\<lambda>j. text_col data ! j) (filter (\<lambda>j. strip (text_col data ! j) \<noteq> []) [0..<?n])
             = filter (\<lambda>t. strip t \<noteq> []) (take ?n (text_col data))"
    by (rule filter_upt_take) simp
  finally show ?thesis by simp
qed

lemma short_data: "image_to_data demo_world 2 = Inr short_table"
  by (simp add: demo_world_def)

lemma short_extract: "extract_words demo_world 2 rotation = Inl IndexError"
  by (simp add: extract_words_def short_data short_table_def getitem_def strip_def isspace_def
      upt_rec)

lemma extract_words_rotation:
  assumes "extract_words w img rotation = Inr ws"
  shows "\<forall>word\<in>set ws. dict_get word ''rotation'' = Some (PInt rotation)"
proof -
  from assms obtain data where d: "image_to_data w img = Inr data"
    by (auto simp add: extract_words_def split: sum.splits)
  have "ws = map (token_word data rotation)
               (filter (nonblank_at data) [0..<length (text_col data)])"
    using d assms by (rule extract_words_result)
  then show ?thesis by (auto simp add: token_word_def word_record_def)
qed

lemma extract_words_all_blank:
  assumes "image_to_data w img = Inr data" and "\<forall>t\<in>set (text_col data). strip t = []"
  shows "extract_words w img rotation = Inr []"
proof -
  have "\<forall>i<length (text_col data). \<not> nonblank_at data i"
    using assms(2) by (simp add: nonblank_at_def)
  then have none: "filter (nonblank_at data) [0..<length (text_col data)] = []"
    by (simp add: filter_empty_conv)
  from extract_words_cases [OF assms(1), of rotation] none
    \<open>\<forall>i<length (text_col data). \<not> nonblank_at data i\<close>
  show ?thesis by auto
qed

section \<open>The loop of \<^verbatim>\<open>detect_orientation\<close>\<close>

lemma rotate_line_value:
  "(case split_on CHR '':'' line of
      [_, v] \<Rightarrow> int_of_str (strip v)
    | _ \<Rightarrow> Inl ValueError) =
   (case split_first CHR '':'' line of
      None \<Rightarrow> Inl ValueError
    | Some (before, remainder) \<Rightarrow> int_of_str (strip remainder))"
proof (cases "split_first CHR '':'' line")
  case None
  then have "split_on CHR '':'' line = [line]"
    by (simp add: split_first_None split_on_no_sep)
  with None show ?thesis by simp
next
  case (Some ab)
  obtain a b where ab: "ab = (a, b)" by (cases ab)
  from Some ab have on: "split_on CHR '':'' line = a # split_on CHR '':'' b"
    by (simp add: split_first_Some)
  show ?thesis
  proof (cases "CHR '':'' \<in> set b")
    case True
    then obtain x y rest where "split_on CHR '':'' b = x # y # rest"
      using split_on_two_or_more by blast
    moreover have "CHR '':'' \<in> set (strip b)"
      using True colon_plain(1) by (rule strip_keeps)
    then have "int_of_str (strip b) = Inl ValueError"
      using colon_plain(2,3) by (rule int_of_str_foreign) simp_all
    ultimately show ?thesis using Some ab on by simp
  next
    case False
    then have "split_on CHR '':'' b = [b]" by (rule split_on_no_sep)
    with Some ab on show ?thesis by simp
  qed
qed

lemma detect_lines_find:
  "detect_lines ls =
     (case find (contains ''Rotate'') ls of
        None \<Rightarrow> Inr 0
      | Some line \<Rightarrow>
          (case split_first CHR '':'' line of
             None \<Rightarrow> Inl ValueError
           | Some (before, remainder) \<Rightarrow> int_of_str (strip remainder)))"
proof (induction ls)
  case Nil
  show ?case by simp
next
  case (Cons l ls)
  show ?case
  proof (cases "contains ''Rotate'' l")
    case True
    then show ?thesis
      using rotate_line_value [of l] by (simp del: contains.simps)
  next
    case False
    with Cons show ?thesis by (simp del: contains.simps)
  qed
qed

lemma detect_lines_Inr:
  "detect_lines ls = Inr r \<Longrightarrow>
   ((\<forall>line\<in>set ls. \<not> contains ''Rotate'' line) \<and> r = 0)
   \<or> (\<exists>pre line post b v.
        ls = pre @ line # post \<and> (\<forall>p\<in>set pre. \<not> contains ''Rotate'' p)
        \<and> contains ''Rotate'' line
        \<and> split_on CHR '':'' line = [b, v] \<and> int_of_str (strip v) = Inr r)"
proof (induction ls)
  case Nil
  then show ?case by simp
next
  case (Cons l ls)
  show ?case
  proof (cases "contains ''Rotate'' l")
    case True
    with Cons.prems obtain b v where "split_on CHR '':'' l = [b, v]"
      and "int_of_str (strip v) = Inr r"
      by (auto simp del: contains.simps split: list.splits)
    with True have "l # ls = [] @ l # ls \<and> (\<forall>p\<in>set []. \<not> contains ''Rotate'' p)
        \<and> contains ''Rotate'' l
        \<and> split_on CHR '':'' l = [b, v] \<and> int_of_str (strip v) = Inr r"
      by simp
    then show ?thesis by blast
  next
    case False
    with Cons.prems have "detect_lines ls = Inr r" by (simp del: contains.simps)
    from Cons.IH [OF this] show ?thesis
    proof
      assume "(\<forall>line\<in>set ls. \<not> contains ''Rotate'' line) \<and> r = 0"
      with False show ?thesis by (simp del: contains.simps)
    next
      assume "\<exists>pre line post b v.
        ls = pre @ line # post \<and> (\<forall>p\<in>set pre. \<not> contains ''Rotate'' p)
        \<and> contains ''Rotate'' line
        \<and> split_on CHR '':'' line = [b, v] \<and> int_of_str (strip v) = Inr r"
      then obtain pre line post b v where
        "ls = pre @ line # post" "\<forall>p\<in>set pre. \<not> contains ''Rotate'' p"
        "contains ''Rotate'' line" "split_on CHR '':'' line = [b, v]"
        "int_of_str (strip v) = Inr r"
        by blast
      with False have "l # ls = (l # pre) @ line # post
        \<and> (\<forall>p\<in>set (l # pre). \<not> contains ''Rotate'' p)
        \<and> contains ''Rotate'' line
        \<and> split_on CHR '':'' line = [b, v] \<and> int_of_str (strip v) = Inr r"
        by (simp del: contains.simps)
      then show ?thesis by blast
    qed
  qed
qed

lemma detect_orientation_Inr:
  assumes "image_to_osd w img = Inr osd" and "detect_orientation w img = Inr r"
  shows "((\<forall>line\<in>set (splitlines osd). \<not> contains ''Rotate'' line) \<and> r = 0)
       \<or> (\<exists>pre line post b v.
            splitlines osd = pre @ line # post
            \<and> (\<forall>p\<in>set pre. \<not> contains ''Rotate'' p) \<and> contains ''Rotate'' line
            \<and> split_on CHR '':'' line = [b, v] \<and> int_of_str (strip v) = Inr r)"
proof -
  from assms have "detect_lines (splitlines osd) = Inr r"
    by (simp add: detect_orientation_def)
  then show ?thesis by (rule detect_lines_Inr)
qed

lemma page_osd_lines:
  "splitlines page_osd =
     [''Page number: 0'', ''Orientation in degrees: 270''] @ ''Rotate: 90'' #
     [''Orientation confidence: 2.51'', ''Rotate: 180'']"
  by code_simp

lemma blank_osd_lines: "splitlines (''Page number: 0'' @ [CHR 0x0A]) = [''Page number: 0'']"
  by code_simp

section \<open>The loop of \<^verbatim>\<open>main\<close>\<close>

lemma process_images_step:
  "process_images w (p # ps) acc =
     (case image_entry w p of Inl e \<Rightarrow> Inl e | Inr entry \<Rightarrow> process_images w ps (acc @ [entry]))"
  by (simp add: image_entry_def split: sum.splits)

lemma process_images_Inr:
  "process_images w ps acc = Inr out \<longleftrightarrow>
   (\<exists>es. out = acc @ es \<and> list_all2 (\<lambda>p entry. image_entry w p = Inr entry) ps es)"
proof (induction ps arbitrary: acc)
  case Nil
  show ?case by auto
next
  case (Cons p ps)
  show ?case
  proof (cases "image_entry w p")
    case (Inl e)
    then show ?thesis
      by (simp add: process_images_step list_all2_Cons1 del: process_images.simps(2))
  next
    case (Inr entry)
    then show ?thesis
      by (simp add: process_images_step Cons.IH list_all2_Cons1 del: process_images.simps(2))
        blast
  qed
qed

lemma process_images_nth:
  assumes "process_images w ps [] = Inr es"
  shows "length es = length ps" and "\<forall>k<length ps. image_entry w (ps ! k) = Inr (es ! k)"
proof -
  from assms have "list_all2 (\<lambda>p entry. image_entry w p = Inr entry) ps es"
    by (simp add: process_images_Inr)
  then show "length es = length ps" and "\<forall>k<length ps. image_entry w (ps ! k) = Inr (es ! k)"
    by (simp_all add: list_all2_conv_all_nth)
qed

lemma configure_tesseract_frame:
  "configure_tesseract w cmd = Inr w1 \<Longrightarrow> \<exists>c. w1 = w\<lparr>tesseract_cmd := c\<rparr>"
proof -
  assume a: "configure_tesseract w cmd = Inr w1"
  show ?thesis
  proof (cases "py_or cmd (environ_TESSERACT_CMD w)")
    case None
    with a have "w1 = w" by (simp add: configure_tesseract_def Let_def split: if_splits)
    then have "w1 = w\<lparr>tesseract_cmd := tesseract_cmd w\<rparr>" by simp
    then show ?thesis ..
  next
    case (Some s)
    with a have "w1 = w \<or> w1 = w\<lparr>tesseract_cmd := s\<rparr>"
      by (simp add: configure_tesseract_def Let_def split: if_splits)
    then show ?thesis
    proof
      assume "w1 = w"
      then have "w1 = w\<lparr>tesseract_cmd := tesseract_cmd w\<rparr>" by simp
      then show ?thesis ..
    next
      assume "w1 = w\<lparr>tesseract_cmd := s\<rparr>"
      then show ?thesis ..
    qed
  qed
qed

lemma configure_tesseract_messages:
  "configure_tesseract w cmd = Inl msg \<Longrightarrow> msg = msg_not_found \<or> msg = msg_not_available"
  by (simp add: configure_tesseract_def Let_def split: if_splits)

lemma detect_orientation_frame:
  "detect_orientation (w\<lparr>tesseract_cmd := c\<rparr>) img = detect_orientation w img"
  by (simp add: detect_orientation_def)

lemma extract_words_frame:
  "extract_words (w\<lparr>tesseract_cmd := c\<rparr>) img rotation = extract_words w img rotation"
  by (simp add: extract_words_def)

lemma image_entry_frame: "image_entry (w\<lparr>tesseract_cmd := c\<rparr>) p = image_entry w p"
  by (simp add: image_entry_def detect_orientation_frame extract_words_frame
      split: sum.splits)

lemma process_images_frame:
  "process_images (w\<lparr>tesseract_cmd := c\<rparr>) ps acc = process_images w ps acc"
  by (induction ps arbitrary: acc)
     (simp_all add: process_images_step image_entry_frame del: process_images.simps(2)
       split: sum.splits)

lemma iter_images_frame: "iter_images (w\<lparr>tesseract_cmd := c\<rparr>) folder = iter_images w folder"
  by (simp add: iter_images_def iterdir_def)

lemma main_unfold:
  "main a w =
     (case configure_tesseract w (tesseract_cmd_arg a) of
        Inl msg \<Rightarrow> (SystemExit msg, files w)
      | Inr w1 \<Rightarrow>
          if \<not> is_dir w (img_dir a) then
            (SystemExit (''Image directory not found: '' @ str_path (img_dir a)), files w)
          else
            (case iter_images w (img_dir a) of
               Inl e \<Rightarrow> (Uncaught e, files w)
             | Inr paths \<Rightarrow>
                 (case process_images w paths [] of
                    Inl e \<Rightarrow> (Uncaught e, files w)
                  | Inr images \<Rightarrow>
                      (case write_error w (output_path a)
                              (PDict [(''images'', PList images)]) of
                         Some e \<Rightarrow> (Uncaught e, files w)
                       | None \<Rightarrow>
                           (Completed (''Wrote OCR results to '' @ output_path a),
                            (files w)(output_path a \<mapsto>
                               PDict [(''images'', PList images)]))))))"
proof (cases "configure_tesseract w (tesseract_cmd_arg a)")
  case (Inl msg)
  then show ?thesis by (simp add: main_def)
next
  case (Inr w1)
  then obtain c where "w1 = w\<lparr>tesseract_cmd := c\<rparr>"
    using configure_tesseract_frame by blast
  with Inr show ?thesis
    by (simp add: main_def is_dir_def iter_images_frame process_images_frame
        write_text_def split: sum.splits option.splits)
qed

lemma demo_configure: "configure_tesseract demo_world None = Inr demo_world"
  by (simp add: configure_tesseract_def py_or_def demo_world_def)

lemma demo_img_paths:
  "iter_images demo_world [''img''] = Inr [[''img'', ''blank.PNG''], [''img'', ''page.png'']]"
  by code_simp


section \<open>Geometry of a word record\<close>

text \<open>
  C1: for a token at index \<open>i\<close> whose trimmed text is non-empty, the record that
  \<^verbatim>\<open>extract_words\<close> builds for it (the \<open>k\<close>-th record, \<open>k\<close> being the number of
  non-blank tokens before \<open>i\<close>) has \<^verbatim>\<open>right = left + width\<close>, \<^verbatim>\<open>bottom = top + height\<close>,
  \<^verbatim>\<open>center_x = left + width / 2\<close> and \<^verbatim>\<open>center_y = top + height / 2\<close>, where left, top,
  width and height are the table's values at \<open>i\<close> coerced by \<^verbatim>\<open>int\<close>.
\<close>

theorem extract_words_geometry:
  assumes "image_to_data w img = Inr data"
    and "extract_words w img rotation = Inr ws"
    and "i < length (text_col data)"
    and "strip (text_col data ! i) \<noteq> []"
    and "k = length (filter (\<lambda>t. strip t \<noteq> []) (take i (text_col data)))"
    and "l = py_int (left_col data ! i)" and "t = py_int (top_col data ! i)"
    and "wd = py_int (width_col data ! i)" and "h = py_int (height_col data ! i)"
  shows "k < length ws
       \<and> i < length (left_col data) \<and> i < length (top_col data)
       \<and> i < length (width_col data) \<and> i < length (height_col data)
       \<and> dict_get (ws ! k) ''text'' = Some (PStr (strip (text_col data ! i)))
       \<and> (\<exists>pos. dict_get (ws ! k) ''position'' = Some pos
            \<and> dict_get pos ''left'' = Some (PInt l)
            \<and> dict_get pos ''top'' = Some (PInt t)
            \<and> dict_get pos ''right'' = Some (PInt (l + wd))
            \<and> dict_get pos ''bottom'' = Some (PInt (t + h))
            \<and> dict_get pos ''center_x'' = Some (PFloat (of_int l + of_int wd / 2))
            \<and> dict_get pos ''center_y'' = Some (PFloat (of_int t + of_int h / 2)))"
proof -
  have "k < length ws" and "ws ! k = token_word data rotation i" and "covered data i"
    using assms(1-5) by (rule extract_words_nth)+
  then show ?thesis
    by (simp add: token_word_def word_record_def covered_def assms(6-9))
qed

theorem extract_words_geometry_witness:
  "extract_words demo_world 0 90 = Inr (page_words 90)
   \<and> strip (text_col page_table ! 2) = ''Welt''
   \<and> dict_get (page_words 90 ! 1) ''text'' = Some (PStr ''Welt'')
   \<and> (\<exists>pos. dict_get (page_words 90 ! 1) ''position'' = Some pos
        \<and> dict_get pos ''left'' = Some (PInt 30)
        \<and> dict_get pos ''top'' = Some (PInt 12)
        \<and> dict_get pos ''right'' = Some (PInt (30 + 41))
        \<and> dict_get pos ''bottom'' = Some (PInt (12 + 19))
        \<and> dict_get pos ''center_x'' = Some (PFloat (of_int 30 + of_int 41 / 2))
        \<and> dict_get pos ''center_y'' = Some (PFloat (of_int 12 + of_int 19 / 2)))"
proof -
  have i: "2 < length (text_col page_table)" by (simp add: page_table_def)
  have s: "strip (text_col page_table ! 2) = ''Welt''"
    by (simp add: page_table_def strip_def isspace_def)
  then have nb: "strip (text_col page_table ! 2) \<noteq> []" by simp
  have k: "1 = length (filter (\<lambda>t. strip t \<noteq> []) (take 2 (text_col page_table)))"
    by (simp add: page_table_def strip_def isspace_def)
  have v: "30 = py_int (left_col page_table ! 2)" "12 = py_int (top_col page_table ! 2)"
    "41 = py_int (width_col page_table ! 2)" "19 = py_int (height_col page_table ! 2)"
    by code_simp+
  show ?thesis
    using extract_words_geometry [OF page_data page_extract i nb k v] page_extract s
    by simp
qed

section \<open>Blank tokens\<close>

text \<open>
  C2: \<^verbatim>\<open>extract_words\<close> produces no record for a token whose trimmed text is empty: the
  texts of the records are the trimmed texts of the non-blank tokens, in table order, so
  no record has a blank text; the number of records is at most the number of tokens,
  and equal to it exactly when no token's trimmed text is empty.
\<close>

theorem extract_words_drops_blank_tokens:
  assumes "image_to_data w img = Inr data" and "extract_words w img rotation = Inr ws"
  shows "map (\<lambda>r. dict_get r ''text'') ws =
           map (\<lambda>t. Some (PStr (strip t))) (filter (\<lambda>t. strip t \<noteq> []) (text_col data))
       \<and> (\<forall>r\<in>set ws. \<exists>t. dict_get r ''text'' = Some (PStr t) \<and> strip t \<noteq> [])
       \<and> length ws \<le> length (text_col data)
       \<and> (length ws = length (text_col data) \<longleftrightarrow> (\<forall>t\<in>set (text_col data). strip t \<noteq> []))"
proof -
  let ?keep = "filter (\<lambda>t. strip t \<noteq> []) (text_col data)"
  have texts: "map (\<lambda>r. dict_get r ''text'') ws = map (\<lambda>t. Some (PStr (strip t))) ?keep"
    using assms by (rule extract_words_texts)
  then have "length (map (\<lambda>r. dict_get r ''text'') ws) = length (map (\<lambda>t. Some (PStr (strip t))) ?keep)"
    by simp
  then have len: "length ws = length ?keep" by simp
  have blank: "\<forall>r\<in>set ws. \<exists>t. dict_get r ''text'' = Some (PStr t) \<and> strip t \<noteq> []"
  proof
    fix r assume "r \<in> set ws"
    then have "dict_get r ''text'' \<in> set (map (\<lambda>t. Some (PStr (strip t))) ?keep)"
      unfolding texts [symmetric] by simp
    then obtain t where "strip t \<noteq> []" and "dict_get r ''text'' = Some (PStr (strip t))"
      by auto
    then show "\<exists>t. dict_get r ''text'' = Some (PStr t) \<and> strip t \<noteq> []"
      by (simp add: strip_idem)
  qed
  have le: "length ws \<le> length (text_col data)"
    unfolding len by (rule length_filter_le)
  have eq: "length ws = length (text_col data) \<longleftrightarrow> (\<forall>t\<in>set (text_col data). strip t \<noteq> [])"
    unfolding len by (rule length_filter_eq_iff)
  from texts blank le eq show ?thesis by simp
qed

theorem extract_words_drops_blank_tokens_witness:
  "extract_words demo_world 0 90 = Inr (page_words 90)
   \<and> text_col page_table = [''  Hello '', '' '', ''Welt'']
   \<and> strip '' '' = []
   \<and> map (\<lambda>r. dict_get r ''text'') (page_words 90) = [Some (PStr ''Hello''), Some (PStr ''Welt'')]
   \<and> length (page_words 90) \<le> length (text_col page_table)
   \<and> length (page_words 90) \<noteq> length (text_col page_table)"
proof -
  have t: "text_col page_table = [''  Hello '', '' '', ''Welt'']"
    by (simp add: page_table_def)
  have s: "strip ''  Hello '' = ''Hello''" "strip '' '' = []" "strip ''Welt'' = ''Welt''"
    by (simp_all add: strip_def isspace_def)
  show ?thesis
    using extract_words_drops_blank_tokens [OF page_data page_extract] page_extract
    by (simp add: t s)
qed

section \<open>Orientation parsing\<close>

text \<open>
  C3: \<^verbatim>\<open>detect_orientation\<close> computes what the specification's rule computes: on the
  first line containing \<^verbatim>\<open>Rotate\<close> it returns the integer parsed from what follows the
  first colon, stripped of whitespace; if no line contains \<^verbatim>\<open>Rotate\<close> it returns 0; and
  the lines after the first matching line have no influence on the result.
\<close>

theorem detect_orientation_first_rotate_line:
  assumes "image_to_osd w img = Inr osd"
  shows "detect_orientation w img = spec_detect_orientation osd
       \<and> ((\<forall>line\<in>set (splitlines osd). \<not> contains ''Rotate'' line) \<longrightarrow>
            detect_orientation w img = Inr 0)
       \<and> (\<forall>pre line post.
            splitlines osd = pre @ line # post
            \<and> (\<forall>p\<in>set pre. \<not> contains ''Rotate'' p) \<and> contains ''Rotate'' line \<longrightarrow>
            detect_orientation w img =
              (case split_first CHR '':'' line of
                 None \<Rightarrow> Inl ValueError
               | Some (before, remainder) \<Rightarrow> int_of_str (strip remainder)))"
proof -
  have d: "detect_orientation w img = detect_lines (splitlines osd)"
    using assms by (simp add: detect_orientation_def)
  have a: "detect_orientation w img = spec_detect_orientation osd"
    unfolding d spec_detect_orientation_def by (rule detect_lines_find)
  have b: "(\<forall>line\<in>set (splitlines osd). \<not> contains ''Rotate'' line) \<longrightarrow>
           detect_orientation w img = Inr 0"
    unfolding d detect_lines_find by (simp add: find_no_match del: contains.simps)
  have c: "\<forall>pre line post.
            splitlines osd = pre @ line # post
            \<and> (\<forall>p\<in>set pre. \<not> contains ''Rotate'' p) \<and> contains ''Rotate'' line \<longrightarrow>
            detect_orientation w img =
              (case split_first CHR '':'' line of
                 None \<Rightarrow> Inl ValueError
               | Some (before, remainder) \<Rightarrow> int_of_str (strip remainder))"
    unfolding d detect_lines_find by (auto simp add: find_first_match simp del: contains.simps)
  from a b c show ?thesis by blast
qed

theorem detect_orientation_first_rotate_line_witness:
  "detect_orientation demo_world 0 = Inr 90
   \<and> spec_detect_orientation page_osd = Inr 90
   \<and> contains ''Rotate'' ''Rotate: 180''
   \<and> detect_orientation demo_world 1 = Inr 0"
proof -
  have o0: "image_to_osd demo_world 0 = Inr page_osd"
    and o1: "image_to_osd demo_world 1 = Inr (''Page number: 0'' @ [CHR 0x0A])"
    by (simp_all add: demo_world_def)
  have pre: "\<forall>p\<in>set [''Page number: 0'', ''Orientation in degrees: 270'']. \<not> contains ''Rotate'' p"
    by code_simp
  have hit: "contains ''Rotate'' ''Rotate: 90''" "contains ''Rotate'' ''Rotate: 180''"
    by code_simp+
  have none: "\<forall>line\<in>set (splitlines (''Page number: 0'' @ [CHR 0x0A])). \<not> contains ''Rotate'' line"
    unfolding blank_osd_lines by code_simp
  have v: "(case split_first CHR '':'' ''Rotate: 90'' of
              None \<Rightarrow> Inl ValueError
            | Some (before, remainder) \<Rightarrow> int_of_str (strip remainder)) = Inr 90"
    by code_simp
  from detect_orientation_first_rotate_line [OF o0] page_osd_lines pre hit(1)
  have "detect_orientation demo_world 0 =
          (case split_first CHR '':'' ''Rotate: 90'' of
             None \<Rightarrow> Inl ValueError
           | Some (before, remainder) \<Rightarrow> int_of_str (strip remainder))"
    by blast
  with v have r0: "detect_orientation demo_world 0 = Inr 90" by simp
  from detect_orientation_first_rotate_line [OF o0] r0
  have s0: "spec_detect_orientation page_osd = Inr 90" by simp
  from detect_orientation_first_rotate_line [OF o1] none
  have r1: "detect_orientation demo_world 1 = Inr 0" by blast
  from r0 s0 hit(2) r1 show ?thesis by blast
qed

section \<open>Enumerating the images\<close>




section \<open>The range of the orientation\<close>

text \<open>
  C5, as stated: the orientation stored for a processed image is one of 0, 90, 180 and
  270. The code stores whatever integer the engine's text carries: for image 3 of the
  example world the engine reports \<^verbatim>\<open>Rotate: 45\<close>, and 45 is written to the entry and to
  each of its words.
\<close>

theorem detect_orientation_range_counterexample:
  "image_to_osd demo_world 3 = Inr (''Rotate: 45'' @ [CHR 0x0A])
   \<and> detect_orientation demo_world 3 = Inr 45
   \<and> (45 :: int) \<notin> {0, 90, 180, 270}
   \<and> snd (main (demo_args ''skew'') demo_world) ''ocr_output.json'' =
       Some (PDict [(''images'',
         PList [PDict [(''file'', PStr ''skew/s.png''), (''rotation'', PInt 45),
                       (''words'', PList (page_words 45))]])])"
proof -
  have a: "image_to_osd demo_world 3 = Inr (''Rotate: 45'' @ [CHR 0x0A])"
    by (simp add: demo_world_def)
  have b: "detect_orientation demo_world 3 = Inr 45" by code_simp
  have c: "snd (main (demo_args ''skew'') demo_world) ''ocr_output.json'' =
       Some (PDict [(''images'',
         PList [PDict [(''file'', PStr ''skew/s.png''), (''rotation'', PInt 45),
                       (''words'', PList (page_words 45))]])])"
    by code_simp
  from a b c show ?thesis by simp
qed

text \<open>
  C5, amended: in the report of a completed run, the rotation stored in the entry of
  each image, and in every word of that entry, is the value that \<^verbatim>\<open>detect_orientation\<close>
  returned for the image: 0 if no line of the engine's text contains \<^verbatim>\<open>Rotate\<close>, and
  otherwise the integer that stands after the colon of the first such line, whatever
  its value. No range is checked.
\<close>

theorem main_stored_orientation:
  assumes "main a w = (Completed line, fs)"
  shows "\<exists>paths entries.
           iter_images w (img_dir a) = Inr paths
         \<and> fs (output_path a) = Some (PDict [(''images'', PList entries)])
         \<and> length entries = length paths
         \<and> (\<forall>k<length paths. \<exists>img osd r ws.
              image_open w (paths ! k) = Inr img
              \<and> image_to_osd w img = Inr osd
              \<and> detect_orientation w img = Inr r
              \<and> dict_get (entries ! k) ''rotation'' = Some (PInt r)
              \<and> dict_get (entries ! k) ''words'' = Some (PList ws)
              \<and> (\<forall>word\<in>set ws. dict_get word ''rotation'' = Some (PInt r))
              \<and> (((\<forall>line\<in>set (splitlines osd). \<not> contains ''Rotate'' line) \<and> r = 0)
                 \<or> (\<exists>pre line post b v.
                      splitlines osd = pre @ line # post
                      \<and> (\<forall>p\<in>set pre. \<not> contains ''Rotate'' p) \<and> contains ''Rotate'' line
                      \<and> split_on CHR '':'' line = [b, v]
                      \<and> int_of_str (strip v) = Inr r)))"
proof -
  from assms obtain paths entries where
    it: "iter_images w (img_dir a) = Inr paths"
    and pr: "process_images w paths [] = Inr entries"
    and fs: "fs = (files w)(output_path a \<mapsto> PDict [(''images'', PList entries)])"
    by (auto simp add: main_unfold split: sum.splits if_splits option.splits)
  have len: "length entries = length paths"
    and nth: "\<forall>k<length paths. image_entry w (paths ! k) = Inr (entries ! k)"
    using pr by (rule process_images_nth)+
  have "\<forall>k<length paths. \<exists>img osd r ws.
              image_open w (paths ! k) = Inr img
              \<and> image_to_osd w img = Inr osd
              \<and> detect_orientation w img = Inr r
              \<and> dict_get (entries ! k) ''rotation'' = Some (PInt r)
              \<and> dict_get (entries ! k) ''words'' = Some (PList ws)
              \<and> (\<forall>word\<in>set ws. dict_get word ''rotation'' = Some (PInt r))
              \<and> (((\<forall>line\<in>set (splitlines osd). \<not> contains ''Rotate'' line) \<and> r = 0)
                 \<or> (\<exists>pre line post b v.
                      splitlines osd = pre @ line # post
                      \<and> (\<forall>p\<in>set pre. \<not> contains ''Rotate'' p) \<and> contains ''Rotate'' line
                      \<and> split_on CHR '':'' line = [b, v]
                      \<and> int_of_str (strip v) = Inr r))"
  proof (intro allI impI)
    fix k assume "k < length paths"
    with nth have "image_entry w (paths ! k) = Inr (entries ! k)" by blast
    then obtain img r ws where o: "image_open w (paths ! k) = Inr img"
      and d: "detect_orientation w img = Inr r"
      and x: "extract_words w img r = Inr ws"
      and e: "PDict [(''file'', PStr (str_path (paths ! k))),
                     (''rotation'', PInt r), (''words'', PList ws)] = entries ! k"
      by (auto simp add: image_entry_def split: sum.splits)
    from d obtain osd where t: "image_to_osd w img = Inr osd"
      by (auto simp add: detect_orientation_def split: sum.splits)
    note v = detect_orientation_Inr [OF t d]
    note c = extract_words_rotation [OF x]
    have "dict_get (entries ! k) ''rotation'' = Some (PInt r)"
      and "dict_get (entries ! k) ''words'' = Some (PList ws)"
      unfolding e [symmetric] by simp_all
    with o t d c v show "\<exists>img osd r ws.
              image_open w (paths ! k) = Inr img
              \<and> image_to_osd w img = Inr osd
              \<and> detect_orientation w img = Inr r
              \<and> dict_get (entries ! k) ''rotation'' = Some (PInt r)
              \<and> dict_get (entries ! k) ''words'' = Some (PList ws)
              \<and> (\<forall>word\<in>set ws. dict_get word ''rotation'' = Some (PInt r))
              \<and> (((\<forall>line\<in>set (splitlines osd). \<not> contains ''Rotate'' line) \<and> r = 0)
                 \<or> (\<exists>pre line post b v.
                      splitlines osd = pre @ line # post
                      \<and> (\<forall>p\<in>set pre. \<not> contains ''Rotate'' p) \<and> contains ''Rotate'' line
                      \<and> split_on CHR '':'' line = [b, v]
                      \<and> int_of_str (strip v) = Inr r))"
      by blast
  qed
  with it fs len show ?thesis by simp
qed

theorem main_stored_orientation_witness:
  "fst (main (demo_args ''img'') demo_world) = Completed ''Wrote OCR results to ocr_output.json''
   \<and> iter_images demo_world [''img''] = Inr [[''img'', ''blank.PNG''], [''img'', ''page.png'']]
   \<and> image_open demo_world [''img'', ''page.png''] = Inr 0
   \<and> image_to_osd demo_world 0 = Inr page_osd
   \<and> detect_orientation demo_world 0 = Inr 90
   \<and> split_on CHR '':'' ''Rotate: 90'' = [''Rotate'', '' 90'']
   \<and> int_of_str (strip '' 90'') = Inr 90
   \<and> (\<exists>entries.
        snd (main (demo_args ''img'') demo_world) ''ocr_output.json'' =
          Some (PDict [(''images'', PList entries)])
        \<and> length entries = 2
        \<and> dict_get (entries ! 0) ''rotation'' = Some (PInt 0)
        \<and> dict_get (entries ! 1) ''rotation'' = Some (PInt 90)
        \<and> dict_get (entries ! 1) ''words'' = Some (PList (page_words 90))
        \<and> dict_get (page_words 90 ! 0) ''rotation'' = Some (PInt 90)
        \<and> dict_get (page_words 90 ! 1) ''rotation'' = Some (PInt 90))"
proof -
  have f: "fst (main (demo_args ''img'') demo_world) = Completed ''Wrote OCR results to ocr_output.json''"
    by code_simp
  then have m: "main (demo_args ''img'') demo_world =
      (Completed ''Wrote OCR results to ocr_output.json'', snd (main (demo_args ''img'') demo_world))"
    by (metis prod.collapse)
  have a: "img_dir (demo_args ''img'') = [''img'']" "output_path (demo_args ''img'') = ''ocr_output.json''"
    by (simp_all add: demo_args_def)
  have o: "image_open demo_world [''img'', ''blank.PNG''] = Inr 1"
    "image_open demo_world [''img'', ''page.png''] = Inr 0"
    and t: "image_to_osd demo_world 0 = Inr page_osd"
    by (simp_all add: demo_world_def)
  have r: "detect_orientation demo_world 1 = Inr 0" "detect_orientation demo_world 0 = Inr 90"
    by code_simp+
  have x: "extract_words demo_world 0 90 = Inr (page_words 90)" by (rule page_extract)
  have s: "split_on CHR '':'' ''Rotate: 90'' = [''Rotate'', '' 90'']"
    "int_of_str (strip '' 90'') = Inr 90"
    by code_simp+
  have p: "dict_get (page_words 90 ! 0) ''rotation'' = Some (PInt 90)"
    "dict_get (page_words 90 ! 1) ''rotation'' = Some (PInt 90)"
    by (simp_all add: page_words_def word_record_def)
  from main_stored_orientation [OF m] obtain entries where
    e: "snd (main (demo_args ''img'') demo_world) ''ocr_output.json'' =
          Some (PDict [(''images'', PList entries)])"
    "length entries = 2"
    and k: "\<forall>k<2. \<exists>img osd r ws.
              image_open demo_world ([[''img'', ''blank.PNG''], [''img'', ''page.png'']] ! k) = Inr img
              \<and> image_to_osd demo_world img = Inr osd
              \<and> detect_orientation demo_world img = Inr r
              \<and> dict_get (entries ! k) ''rotation'' = Some (PInt r)
              \<and> dict_get (entries ! k) ''words'' = Some (PList ws)
              \<and> (\<forall>word\<in>set ws. dict_get word ''rotation'' = Some (PInt r))
              \<and> (((\<forall>line\<in>set (splitlines osd). \<not> contains ''Rotate'' line) \<and> r = 0)
                 \<or> (\<exists>pre line post b v.
                      splitlines osd = pre @ line # post
                      \<and> (\<forall>p\<in>set pre. \<not> contains ''Rotate'' p) \<and> contains ''Rotate'' line
                      \<and> split_on CHR '':'' line = [b, v]
                      \<and> int_of_str (strip v) = Inr r))"
    unfolding a demo_img_paths by auto
  have "(0::nat) < 2" by simp
  with k obtain img0 r0 where
    "image_open demo_world ([[''img'', ''blank.PNG''], [''img'', ''page.png'']] ! 0) = Inr img0"
    "detect_orientation demo_world img0 = Inr r0"
    "dict_get (entries ! 0) ''rotation'' = Some (PInt r0)"
    by blast
  with o(1) r(1) have e0: "dict_get (entries ! 0) ''rotation'' = Some (PInt 0)" by simp
  have "(1::nat) < 2" by simp
  with k obtain img1 r1 where
    "image_open demo_world ([[''img'', ''blank.PNG''], [''img'', ''page.png'']] ! 1) = Inr img1"
    "detect_orientation demo_world img1 = Inr r1"
    "dict_get (entries ! 1) ''rotation'' = Some (PInt r1)"
    by blast
  with o(2) r(2) have e1: "dict_get (entries ! 1) ''rotation'' = Some (PInt 90)" by simp
  have c: "snd (main (demo_args ''img'') demo_world) ''ocr_output.json'' =
      Some (PDict [(''images'', PList
        [PDict [(''file'', PStr ''img/blank.PNG''), (''rotation'', PInt 0), (''words'', PList [])],
         PDict [(''file'', PStr ''img/page.png''), (''rotation'', PInt 90),
                (''words'', PList (page_words 90))]])])"
    by code_simp
  with e(1) have "entries =
        [PDict [(''file'', PStr ''img/blank.PNG''), (''rotation'', PInt 0), (''words'', PList [])],
         PDict [(''file'', PStr ''img/page.png''), (''rotation'', PInt 90),
                (''words'', PList (page_words 90))]]"
    by simp
  then have "dict_get (entries ! 1) ''words'' = Some (PList (page_words 90))"
    by simp
  with f demo_img_paths o t r s e e0 e1 p show ?thesis by blast
qed

section \<open>A missing image directory\<close>

text \<open>
  C6: if the configured image directory does not exist or is not a directory, the run
  ends by \<^verbatim>\<open>SystemExit\<close> with a message, hence with exit status 1, and no file is written
  or changed. The message names the directory whenever the engine check has passed;
  otherwise it is one of the two messages of the engine check.
\<close>

theorem main_missing_directory:
  assumes "\<not> is_dir w (img_dir a)"
  shows "exit_status (fst (main a w)) = 1
       \<and> snd (main a w) = files w
       \<and> (\<exists>msg. fst (main a w) = SystemExit msg
            \<and> (msg = msg_not_found \<or> msg = msg_not_available
                \<or> msg = ''Image directory not found: '' @ str_path (img_dir a)))
       \<and> ((\<exists>w1. configure_tesseract w (tesseract_cmd_arg a) = Inr w1) \<longrightarrow>
            fst (main a w) =
              SystemExit (''Image directory not found: '' @ str_path (img_dir a)))"
proof (cases "configure_tesseract w (tesseract_cmd_arg a)")
  case (Inl msg)
  then have "msg = msg_not_found \<or> msg = msg_not_available"
    by (rule configure_tesseract_messages)
  moreover from Inl have "main a w = (SystemExit msg, files w)"
    by (simp add: main_unfold)
  ultimately show ?thesis using Inl by auto
next
  case (Inr w1)
  with assms have "main a w =
      (SystemExit (''Image directory not found: '' @ str_path (img_dir a)), files w)"
    by (simp add: main_unfold)
  then show ?thesis by simp
qed

theorem main_missing_directory_witness:
  "\<not> is_dir demo_world [''nowhere'']
   \<and> exit_status (fst (main (demo_args ''nowhere'') demo_world)) = 1
   \<and> fst (main (demo_args ''nowhere'') demo_world) =
       SystemExit ''Image directory not found: nowhere''
   \<and> snd (main (demo_args ''nowhere'') demo_world) = files demo_world"
proof -
  have d: "\<not> is_dir demo_world (img_dir (demo_args ''nowhere''))"
    by (simp add: is_dir_def demo_world_def demo_args_def)
  have c: "\<exists>w1. configure_tesseract demo_world (tesseract_cmd_arg (demo_args ''nowhere'')) = Inr w1"
    using demo_configure by (simp add: demo_args_def)
  have p: "img_dir (demo_args ''nowhere'') = [''nowhere'']"
    "str_path [''nowhere''] = ''nowhere''"
    by (simp_all add: demo_args_def str_path_def)
  show ?thesis
    using main_missing_directory [OF d] d c p by simp
qed

section \<open>Images without words\<close>

text \<open>
  C7: in the report of a completed run there is one entry per enumerated image, and the
  entry of every image whose table has no non-blank token has exactly the keys
  \<^verbatim>\<open>file\<close>, \<^verbatim>\<open>rotation\<close> and \<^verbatim>\<open>words\<close>, with \<^verbatim>\<open>words\<close> an empty list.
\<close>

theorem main_blank_image_entry:
  assumes "main a w = (Completed line, fs)"
  shows "\<exists>paths entries.
           iter_images w (img_dir a) = Inr paths
         \<and> fs (output_path a) = Some (PDict [(''images'', PList entries)])
         \<and> length entries = length paths
         \<and> (\<forall>k<length paths. \<forall>img data.
              image_open w (paths ! k) = Inr img \<and> image_to_data w img = Inr data
              \<and> (\<forall>t\<in>set (text_col data). strip t = []) \<longrightarrow>
              dict_keys (entries ! k) = [''file'', ''rotation'', ''words'']
              \<and> dict_get (entries ! k) ''words'' = Some (PList []))"
proof -
  from assms obtain paths entries where
    it: "iter_images w (img_dir a) = Inr paths"
    and pr: "process_images w paths [] = Inr entries"
    and fs: "fs = (files w)(output_path a \<mapsto> PDict [(''images'', PList entries)])"
    by (auto simp add: main_unfold split: sum.splits if_splits option.splits)
  have len: "length entries = length paths"
    and nth: "\<forall>k<length paths. image_entry w (paths ! k) = Inr (entries ! k)"
    using pr by (rule process_images_nth)+
  have "\<forall>k<length paths. \<forall>img data.
          image_open w (paths ! k) = Inr img \<and> image_to_data w img = Inr data
          \<and> (\<forall>t\<in>set (text_col data). strip t = []) \<longrightarrow>
          dict_keys (entries ! k) = [''file'', ''rotation'', ''words'']
          \<and> dict_get (entries ! k) ''words'' = Some (PList [])"
  proof (intro allI impI)
    fix k img data
    assume k: "k < length paths"
      and h: "image_open w (paths ! k) = Inr img \<and> image_to_data w img = Inr data
              \<and> (\<forall>t\<in>set (text_col data). strip t = [])"
    from nth k have e: "image_entry w (paths ! k) = Inr (entries ! k)" by blast
    from h have "\<And>rotation. extract_words w img rotation = Inr []"
      by (simp add: extract_words_all_blank)
    with e h have "\<exists>rotation.
        PDict [(''file'', PStr (str_path (paths ! k))),
               (''rotation'', PInt rotation), (''words'', PList [])] = entries ! k"
      by (auto simp add: image_entry_def split: sum.splits)
    then obtain rotation where
      "PDict [(''file'', PStr (str_path (paths ! k))),
              (''rotation'', PInt rotation), (''words'', PList [])] = entries ! k"
      by blast
    then have
      "entries ! k = PDict [(''file'', PStr (str_path (paths ! k))),
                            (''rotation'', PInt rotation), (''words'', PList [])]"
      by (rule sym)
    then show "dict_keys (entries ! k) = [''file'', ''rotation'', ''words'']
          \<and> dict_get (entries ! k) ''words'' = Some (PList [])"
      by simp
  qed
  with it fs len show ?thesis by simp
qed

theorem main_blank_image_entry_witness:
  "fst (main (demo_args ''img'') demo_world) = Completed ''Wrote OCR results to ocr_output.json''
   \<and> iter_images demo_world [''img''] = Inr [[''img'', ''blank.PNG''], [''img'', ''page.png'']]
   \<and> image_open demo_world [''img'', ''blank.PNG''] = Inr 1
   \<and> image_to_data demo_world 1 = Inr blank_table
   \<and> text_col blank_table = [[], ''  '']
   \<and> strip [] = [] \<and> strip ''  '' = []
   \<and> (\<exists>entries.
        snd (main (demo_args ''img'') demo_world) ''ocr_output.json'' =
          Some (PDict [(''images'', PList entries)])
        \<and> length entries = 2
        \<and> dict_keys (entries ! 0) = [''file'', ''rotation'', ''words'']
        \<and> dict_get (entries ! 0) ''words'' = Some (PList []))"
proof -
  have f: "fst (main (demo_args ''img'') demo_world) = Completed ''Wrote OCR results to ocr_output.json''"
    by code_simp
  then have m: "main (demo_args ''img'') demo_world =
      (Completed ''Wrote OCR results to ocr_output.json'', snd (main (demo_args ''img'') demo_world))"
    by (metis prod.collapse)
  have a: "img_dir (demo_args ''img'') = [''img'']" "output_path (demo_args ''img'') = ''ocr_output.json''"
    by (simp_all add: demo_args_def)
  have o: "image_open demo_world [''img'', ''blank.PNG''] = Inr 1"
    and t: "image_to_data demo_world 1 = Inr blank_table"
    by (simp_all add: demo_world_def)
  have b: "text_col blank_table = [[], ''  '']" by (simp add: blank_table_def)
  have s: "strip [] = []" "strip ''  '' = []" by (simp_all add: strip_def isspace_def)
  have all: "\<forall>t\<in>set (text_col blank_table). strip t = []" by (simp add: b s)
  from main_blank_image_entry [OF m] obtain entries where
    e: "snd (main (demo_args ''img'') demo_world) ''ocr_output.json'' =
          Some (PDict [(''images'', PList entries)])"
    "length entries = 2"
    and k: "\<forall>k<2. \<forall>img data.
              image_open demo_world ([[''img'', ''blank.PNG''], [''img'', ''page.png'']] ! k) = Inr img
              \<and> image_to_data demo_world img = Inr data
              \<and> (\<forall>t\<in>set (text_col data). strip t = []) \<longrightarrow>
              dict_keys (entries ! k) = [''file'', ''rotation'', ''words'']
              \<and> dict_get (entries ! k) ''words'' = Some (PList [])"
    unfolding a demo_img_paths by auto
  have "(0::nat) < 2" by simp
  with k have "image_open demo_world ([[''img'', ''blank.PNG''], [''img'', ''page.png'']] ! 0) = Inr 1
              \<and> image_to_data demo_world 1 = Inr blank_table
              \<and> (\<forall>t\<in>set (text_col blank_table). strip t = []) \<longrightarrow>
              dict_keys (entries ! 0) = [''file'', ''rotation'', ''words'']
              \<and> dict_get (entries ! 0) ''words'' = Some (PList [])"
    by blast
  with o t all have "dict_keys (entries ! 0) = [''file'', ''rotation'', ''words'']
              \<and> dict_get (entries ! 0) ''words'' = Some (PList [])"
    by simp
  with e f demo_img_paths o t b s show ?thesis by blast
qed

section \<open>Confidence\<close>

text \<open>
  C8: for a non-blank token at index \<open>i\<close>, the confidence of its record is the table's
  confidence at \<open>i\<close> coerced by \<^verbatim>\<open>float\<close> and nothing else: a float is stored as it is,
  an int as the float of the same value, whatever its sign or size.
\<close>

theorem extract_words_confidence:
  assumes "image_to_data w img = Inr data"
    and "extract_words w img rotation = Inr ws"
    and "i < length (text_col data)"
    and "strip (text_col data ! i) \<noteq> []"
    and "k = length (filter (\<lambda>t. strip t \<noteq> []) (take i (text_col data)))"
  shows "k < length ws \<and> i < length (conf_col data)
       \<and> dict_get (ws ! k) ''confidence'' = Some (PFloat (py_float (conf_col data ! i)))
       \<and> (\<forall>q. conf_col data ! i = FloatV q \<longrightarrow> dict_get (ws ! k) ''confidence'' = Some (PFloat q))
       \<and> (\<forall>n. conf_col data ! i = IntV n \<longrightarrow>
             dict_get (ws ! k) ''confidence'' = Some (PFloat (of_int n)))"
proof -
  have "k < length ws" and "ws ! k = token_word data rotation i" and "covered data i"
    using assms by (rule extract_words_nth)+
  then show ?thesis
    by (simp add: token_word_def word_record_def covered_def)
qed

theorem extract_words_confidence_witness:
  "extract_words demo_world 0 90 = Inr (page_words 90)
   \<and> conf_col page_table ! 2 = FloatV (- 5 / 2)
   \<and> dict_get (page_words 90 ! 1) ''confidence'' = Some (PFloat (- 5 / 2))"
proof -
  have i: "2 < length (text_col page_table)" by (simp add: page_table_def)
  have nb: "strip (text_col page_table ! 2) \<noteq> []"
    by (simp add: page_table_def strip_def isspace_def)
  have k: "1 = length (filter (\<lambda>t. strip t \<noteq> []) (take 2 (text_col page_table)))"
    by (simp add: page_table_def strip_def isspace_def)
  have c: "conf_col page_table ! 2 = FloatV (- 5 / 2)" by (simp add: page_table_def)
  show ?thesis
    using extract_words_confidence [OF page_data page_extract i nb k] page_extract c
    by simp
qed

section \<open>Column lengths\<close>

text \<open>
  C9: \<^verbatim>\<open>extract_words\<close> reads the five numeric columns at exactly the indices of the
  text column whose trimmed text is non-empty. If each of these columns is at least as
  long as the text column, the call returns; it returns exactly when every such index
  lies inside all five columns, and raises \<^verbatim>\<open>IndexError\<close> exactly when one does not,
  as for the table of image 2 of the example world.
\<close>

theorem extract_words_index_bounds:
  assumes "image_to_data w img = Inr data"
  shows "(length (text_col data) \<le> length (left_col data)
          \<and> length (text_col data) \<le> length (top_col data)
          \<and> length (text_col data) \<le> length (width_col data)
          \<and> length (text_col data) \<le> length (height_col data)
          \<and> length (text_col data) \<le> length (conf_col data)
          \<longrightarrow> (\<exists>ws. extract_words w img rotation = Inr ws))
       \<and> ((\<exists>ws. extract_words w img rotation = Inr ws) \<longleftrightarrow>
            (\<forall>i<length (text_col data). strip (text_col data ! i) \<noteq> [] \<longrightarrow>
               i < length (left_col data) \<and> i < length (top_col data)
               \<and> i < length (width_col data) \<and> i < length (height_col data)
               \<and> i < length (conf_col data)))
       \<and> (extract_words w img rotation = Inl IndexError \<longleftrightarrow>
            (\<exists>i<length (text_col data). strip (text_col data ! i) \<noteq> [] \<and>
               \<not> (i < length (left_col data) \<and> i < length (top_col data)
                  \<and> i < length (width_col data) \<and> i < length (height_col data)
                  \<and> i < length (conf_col data))))
       \<and> extract_words demo_world 2 rotation = Inl IndexError"
proof -
  note c = extract_words_cases [OF assms, of rotation]
  have a: "(\<exists>ws. extract_words w img rotation = Inr ws) \<longleftrightarrow>
           (\<forall>i<length (text_col data). nonblank_at data i \<longrightarrow> covered data i)"
    using c by auto
  have b: "extract_words w img rotation = Inl IndexError \<longleftrightarrow>
           (\<exists>i<length (text_col data). nonblank_at data i \<and> \<not> covered data i)"
    using c by auto
  have p: "length (text_col data) \<le> length (left_col data)
          \<and> length (text_col data) \<le> length (top_col data)
          \<and> length (text_col data) \<le> length (width_col data)
          \<and> length (text_col data) \<le> length (height_col data)
          \<and> length (text_col data) \<le> length (conf_col data)
          \<longrightarrow> (\<forall>i<length (text_col data). nonblank_at data i \<longrightarrow> covered data i)"
    by (simp add: covered_def)
  from p a have "length (text_col data) \<le> length (left_col data)
          \<and> length (text_col data) \<le> length (top_col data)
          \<and> length (text_col data) \<le> length (width_col data)
          \<and> length (text_col data) \<le> length (height_col data)
          \<and> length (text_col data) \<le> length (conf_col data)
          \<longrightarrow> (\<exists>ws. extract_words w img rotation = Inr ws)"
    by blast
  moreover note a [unfolded nonblank_at_def covered_def] b [unfolded nonblank_at_def covered_def]
    short_extract [of rotation]
  ultimately show ?thesis by blast
qed

theorem extract_words_index_bounds_witness:
  "length (text_col page_table) \<le> length (left_col page_table)
   \<and> length (text_col page_table) \<le> length (top_col page_table)
   \<and> length (text_col page_table) \<le> length (width_col page_table)
   \<and> length (text_col page_table) \<le> length (height_col page_table)
   \<and> length (text_col page_table) \<le> length (conf_col page_table)
   \<and> (\<exists>ws. extract_words demo_world 0 90 = Inr ws)
   \<and> 1 < length (text_col short_table) \<and> strip (text_col short_table ! 1) \<noteq> []
   \<and> \<not> 1 < length (left_col short_table)
   \<and> extract_words demo_world 2 90 = Inl IndexError"
proof -
  have l: "length (text_col page_table) \<le> length (left_col page_table)"
    "length (text_col page_table) \<le> length (top_col page_table)"
    "length (text_col page_table) \<le> length (width_col page_table)"
    "length (text_col page_table) \<le> length (height_col page_table)"
    "length (text_col page_table) \<le> length (conf_col page_table)"
    by (simp_all add: page_table_def)
  have s: "1 < length (text_col short_table)" "strip (text_col short_table ! 1) \<noteq> []"
    "\<not> 1 < length (left_col short_table)"
    by (simp_all add: short_table_def strip_def isspace_def)
  show ?thesis
    using extract_words_index_bounds [OF page_data, of 90]
      extract_words_index_bounds [OF short_data, of 90] l s
    by blast
qed

section \<open>A directory without images\<close>




end
